theory Spec2Isabelle
  imports Complex_Main
begin

section \<open>The lazy list of dw-lazy-list.js\<close>

text \<open>
  The component \<^verbatim>\<open>DwLazyList\<close> marks its children \<^verbatim>\<open>active\<close> when they come near
  the visible part of a scrolling element. JavaScript numbers are modelled as exact
  reals (offsets, lengths and scroll positions) and as integers (the two item counts);
  an index of the children is a natural number.
\<close>

subsection \<open>Data\<close>

text \<open>A child of the list: its two offsets, read by \<^verbatim>\<open>refresh\<close>, and its flag.\<close>

record element =
  offsetTop :: real
  offsetLeft :: real
  active :: bool

text \<open>
  The element that scrolls: the scroll target itself, or \<^verbatim>\<open>document.scrollingElement\<close>
  when the scroll target is the document.
\<close>

record scrolling_element =
  scrollTop :: real
  scrollLeft :: real
  scrollHeight :: real
  scrollWidth :: real
  clientHeight :: real
  clientWidth :: real
  offsetHeight :: real
  offsetWidth :: real

text \<open>
  The component. The constructor assigns \<^verbatim>\<open>direction\<close>, \<^verbatim>\<open>prerenderItemsPercentages\<close>,
  \<^verbatim>\<open>initialItemsCount\<close> and \<^verbatim>\<open>nonContinuous\<close>; it leaves \<^verbatim>\<open>prerenderItemsCount\<close>
  undefined, which is \<open>None\<close> here. The three output properties \<^verbatim>\<open>_hasScroll\<close>,
  \<^verbatim>\<open>_scrollTop\<close> and \<^verbatim>\<open>_scrollBottom\<close> are the fields \<open>u_hasScroll\<close>, \<open>u_scrollTop\<close>
  and \<open>u_scrollBottom\<close>.
\<close>

record lazy_list =
  direction :: string
  prerenderItemsPercentages :: real
  initialItemsCount :: int
  prerenderItemsCount :: "int option"
  nonContinuous :: bool
  scrollTargetIsDocument :: bool
  scrollingElement :: scrolling_element
  u_hasScroll :: bool
  u_scrollTop :: bool
  u_scrollBottom :: bool
  children :: "element list"

subsection \<open>Geometry queries\<close>

definition findContentLength :: "lazy_list \<Rightarrow> real" where
  "findContentLength self =
     (if direction self = ''VERTICAL'' then scrollHeight (scrollingElement self)
      else scrollWidth (scrollingElement self))"

definition findScorllLength :: "lazy_list \<Rightarrow> real" where
  "findScorllLength self =
     (if direction self = ''VERTICAL'' then scrollTop (scrollingElement self)
      else scrollLeft (scrollingElement self))"

definition findViewportLength :: "lazy_list \<Rightarrow> real" where
  "findViewportLength self =
     (if scrollTargetIsDocument self then
        (if direction self = ''VERTICAL'' then clientHeight (scrollingElement self)
         else clientWidth (scrollingElement self))
      else
        (if direction self = ''VERTICAL'' then offsetHeight (scrollingElement self)
         else offsetWidth (scrollingElement self)))"

definition findLazyChildren :: "lazy_list \<Rightarrow> element list" where
  "findLazyChildren self = children self"

subsection \<open>The scroll properties\<close>

definition refreshScrollProps :: "real \<Rightarrow> real \<Rightarrow> lazy_list \<Rightarrow> lazy_list" where
  "refreshScrollProps viewportLength scrollLength self =
     (let contentLength = findContentLength self;
          hs = (contentLength > viewportLength)
      in self\<lparr>u_hasScroll := hs,
              u_scrollTop := (hs \<and> scrollLength = 0),
              u_scrollBottom := (hs \<and> contentLength = viewportLength + scrollLength)\<rparr>)"

subsection \<open>The loop of lodash\<close>

text \<open>
  \<^verbatim>\<open>forEach(collection, iteratee)\<close> of lodash calls the iteratee on each element with its
  index, in order, and leaves the loop as soon as the iteratee returns \<^verbatim>\<open>false\<close>. The
  iteratee here may assign to the element and to a variable of the enclosing function;
  it takes that variable and returns it with the element and its own return value.
\<close>

fun forEach :: "('s \<Rightarrow> 'a \<Rightarrow> nat \<Rightarrow> 's \<times> 'a \<times> bool) \<Rightarrow> 's \<Rightarrow> nat \<Rightarrow> 'a list \<Rightarrow> 's \<times> 'a list" where
  "forEach iteratee st index [] = (st, [])"
| "forEach iteratee st index (x # xs) =
     (case iteratee st x index of
        (st', x', continue) \<Rightarrow>
          if continue then
            (case forEach iteratee st' (Suc index) xs of (st'', xs') \<Rightarrow> (st'', x' # xs'))
          else (st', x' # xs))"

subsection \<open>The initial refresh\<close>

definition initialItemRefresh_iteratee ::
  "lazy_list \<Rightarrow> unit \<Rightarrow> element \<Rightarrow> nat \<Rightarrow> unit \<times> element \<times> bool" where
  "initialItemRefresh_iteratee self u el index =
     (if active el then (u, el, True)
      else if initialItemsCount self \<noteq> 0 \<and> int index < initialItemsCount self
        then (u, el\<lparr>active := True\<rparr>, True)
      else (u, el, False))"

definition initialItemRefresh :: "lazy_list \<Rightarrow> lazy_list" where
  "initialItemRefresh self0 =
     (let viewportLength = findViewportLength self0;
          scrollLength = findScorllLength self0;
          self = refreshScrollProps viewportLength scrollLength self0
      in self\<lparr>children :=
           snd (forEach (initialItemRefresh_iteratee self) () 0 (findLazyChildren self))\<rparr>)"

subsection \<open>The refresh\<close>

text \<open>\<^verbatim>\<open>x || 0\<close> on a number.\<close>

definition or_zero :: "real \<Rightarrow> real" where
  "or_zero x = (if x = 0 then 0 else x)"

definition elStartPos :: "lazy_list \<Rightarrow> element \<Rightarrow> real" where
  "elStartPos self el = (if direction self = ''VERTICAL'' then offsetTop el else offsetLeft el)"

text \<open>
  The window of one call of \<^verbatim>\<open>refresh\<close>: \<^verbatim>\<open>viewportBottom\<close>, \<^verbatim>\<open>viewportTop\<close>,
  \<^verbatim>\<open>viewportExtendedBottom\<close> and \<^verbatim>\<open>viewportExtendedTop\<close>.
\<close>

definition viewportBottom :: "lazy_list \<Rightarrow> real" where
  "viewportBottom self = findScorllLength self + findViewportLength self"

definition viewportTop :: "lazy_list \<Rightarrow> real" where
  "viewportTop self = findScorllLength self - findViewportLength self"

definition viewportExtendedBottom :: "lazy_list \<Rightarrow> real" where
  "viewportExtendedBottom self =
     viewportBottom self + findViewportLength self * or_zero (prerenderItemsPercentages self)"

definition viewportExtendedTop :: "lazy_list \<Rightarrow> real" where
  "viewportExtendedTop self =
     viewportTop self - findViewportLength self * or_zero (prerenderItemsPercentages self)"

text \<open>
  The iteratee of \<^verbatim>\<open>refresh\<close>. Its first argument is the variable
  \<^verbatim>\<open>lastVisibleElementInViewport\<close> of \<^verbatim>\<open>refresh\<close>. With \<^verbatim>\<open>prerenderItemsCount\<close>
  undefined the sum is \<^verbatim>\<open>NaN\<close> and the comparison with the index is false.
\<close>

definition refresh_iteratee ::
  "lazy_list \<Rightarrow> nat \<Rightarrow> element \<Rightarrow> nat \<Rightarrow> nat \<times> element \<times> bool" where
  "refresh_iteratee self lastVisibleElementInViewport el index =
     (if active el then (lastVisibleElementInViewport, el, True)
      else if initialItemsCount self \<noteq> 0 \<and> int index < initialItemsCount self
        then (lastVisibleElementInViewport, el\<lparr>active := True\<rparr>, True)
      else if nonContinuous self then
        (if elStartPos self el < viewportExtendedBottom self
            \<and> (elStartPos self el > viewportTop self
               \<or> elStartPos self el > viewportExtendedTop self)
         then (lastVisibleElementInViewport, el\<lparr>active := True\<rparr>, True)
         else (lastVisibleElementInViewport, el, True))
      else
        (let lastVisible = (if elStartPos self el < viewportBottom self then index
                            else lastVisibleElementInViewport)
         in if elStartPos self el < viewportExtendedBottom self
               \<or> (case prerenderItemsCount self of
                     None \<Rightarrow> False
                   | Some c \<Rightarrow> int index \<le> int lastVisible + c)
            then (lastVisible, el\<lparr>active := True\<rparr>, True)
            else (lastVisible, el, False)))"

text \<open>
  The loop of \<^verbatim>\<open>refresh\<close>, after the scroll properties are set: it returns the last
  value of \<^verbatim>\<open>lastVisibleElementInViewport\<close> and the children.
\<close>

definition refresh_scan :: "lazy_list \<Rightarrow> nat \<times> element list" where
  "refresh_scan self = forEach (refresh_iteratee self) 0 0 (findLazyChildren self)"

definition refresh :: "lazy_list \<Rightarrow> lazy_list" where
  "refresh self0 =
     (let viewportLength = findViewportLength self0;
          scrollLength = findScorllLength self0;
          self = refreshScrollProps viewportLength scrollLength self0
      in self\<lparr>children := snd (refresh_scan self)\<rparr>)"

subsection \<open>Runs of the engine\<close>

text \<open>
  The component calls \<^verbatim>\<open>initialItemRefresh\<close> after its first update and \<^verbatim>\<open>refresh\<close>
  on scroll and resize events. Each run finds the scrolling element as the browser has
  left it: a run is the state of the scrolling element at the call and the method called.
\<close>

datatype run = Refresh | InitialItemRefresh

definition engine_run :: "scrolling_element \<times> run \<Rightarrow> lazy_list \<Rightarrow> lazy_list" where
  "engine_run = (\<lambda>(el, r) self.
     (case r of
        Refresh \<Rightarrow> refresh (self\<lparr>scrollingElement := el\<rparr>)
      | InitialItemRefresh \<Rightarrow> initialItemRefresh (self\<lparr>scrollingElement := el\<rparr>)))"

definition engine_runs :: "(scrolling_element \<times> run) list \<Rightarrow> lazy_list \<Rightarrow> lazy_list" where
  "engine_runs rs self = fold engine_run rs self"

text \<open>
  The value of \<^verbatim>\<open>lastVisibleElementInViewport\<close> when the loop of \<^verbatim>\<open>refresh\<close> has
  called its iteratee on the children before index \<open>k\<close> without leaving.
\<close>

definition lastVisibleElementInViewport_at :: "lazy_list \<Rightarrow> nat \<Rightarrow> nat" where
  "lastVisibleElementInViewport_at self k =
     fst (forEach (refresh_iteratee self) 0 0 (take k (findLazyChildren self)))"

subsection \<open>Example lists\<close>

text \<open>
  A child at a vertical offset, a scrolling element with a scroll position, a height and
  a content height, and a vertical list with the constructor's
  \<^verbatim>\<open>prerenderItemsPercentages\<close> of one half.
\<close>

definition row :: "real \<Rightarrow> bool \<Rightarrow> element" where
  "row pos act = \<lparr>offsetTop = pos, offsetLeft = 0, active = act\<rparr>"

definition target :: "real \<Rightarrow> real \<Rightarrow> real \<Rightarrow> scrolling_element" where
  "target scroll viewport content =
     \<lparr>scrollTop = scroll, scrollLeft = 0, scrollHeight = content, scrollWidth = 500,
      clientHeight = viewport, clientWidth = 500, offsetHeight = viewport, offsetWidth = 500\<rparr>"

definition vertical_list ::
  "bool \<Rightarrow> int \<Rightarrow> int option \<Rightarrow> scrolling_element \<Rightarrow> element list \<Rightarrow> lazy_list" where
  "vertical_list nc ic pc el cs =
     \<lparr>direction = ''VERTICAL'', prerenderItemsPercentages = 1 / 2, initialItemsCount = ic,
      prerenderItemsCount = pc, nonContinuous = nc, scrollTargetIsDocument = False,
      scrollingElement = el, u_hasScroll = False, u_scrollTop = False,
      u_scrollBottom = False, children = cs\<rparr>"

section \<open>Properties\<close>

subsection \<open>The loop and the two iteratees\<close>

lemma refreshScrollProps_geometry:
  "findViewportLength (refreshScrollProps a b s) = findViewportLength s"
  "findScorllLength (refreshScrollProps a b s) = findScorllLength s"
  "findContentLength (refreshScrollProps a b s) = findContentLength s"
  "findLazyChildren (refreshScrollProps a b s) = children s"
  by (simp_all add: refreshScrollProps_def findViewportLength_def findScorllLength_def
        findContentLength_def findLazyChildren_def Let_def)

lemma refresh_iteratee_refreshScrollProps:
  "refresh_iteratee (refreshScrollProps a b s) = refresh_iteratee s"
  by (intro ext)
     (simp add: refresh_iteratee_def refreshScrollProps_def Let_def elStartPos_def
        viewportBottom_def viewportTop_def viewportExtendedBottom_def viewportExtendedTop_def
        findViewportLength_def findScorllLength_def)

lemma initialItemRefresh_iteratee_refreshScrollProps:
  "initialItemRefresh_iteratee (refreshScrollProps a b s) = initialItemRefresh_iteratee s"
  by (intro ext) (simp add: initialItemRefresh_iteratee_def refreshScrollProps_def Let_def)

lemma children_refresh:
  "children (refresh s) = snd (forEach (refresh_iteratee s) 0 0 (children s))"
  by (simp add: refresh_def refresh_scan_def Let_def refresh_iteratee_refreshScrollProps
        refreshScrollProps_geometry)

lemma children_initialItemRefresh:
  "children (initialItemRefresh s) =
   snd (forEach (initialItemRefresh_iteratee s) () 0 (children s))"
  by (simp add: initialItemRefresh_def Let_def initialItemRefresh_iteratee_refreshScrollProps
        refreshScrollProps_geometry)

lemma snd_forEach_Cons:
  "snd (forEach f st i (x # xs)) =
     (case f st x i of (st', x', c) \<Rightarrow> x' # (if c then snd (forEach f st' (Suc i) xs) else xs))"
  by (simp split: prod.splits)

lemma fst_forEach_Cons:
  "fst (forEach f st i (x # xs)) =
     (case f st x i of (st', x', c) \<Rightarrow> if c then fst (forEach f st' (Suc i) xs) else st')"
  by (simp split: prod.splits)

lemma length_forEach: "length (snd (forEach f st i xs)) = length xs"
proof (induction xs arbitrary: st i)
  case Nil
  show ?case by simp
next
  case (Cons x xs)
  show ?case
    by (simp only: snd_forEach_Cons) (simp add: Cons.IH split: prod.splits)
qed

text \<open>
  A relation between the index, the element before and the element after that every call
  of the iteratee establishes, and that an untouched element satisfies, holds at every
  position after the loop.
\<close>

lemma forEach_pointwise:
  assumes f: "\<And>st x j. P j x (fst (snd (f st x j)))"
    and same: "\<And>j x. P j x x"
  shows "k < length xs \<Longrightarrow> P (i + k) (xs ! k) (snd (forEach f st i xs) ! k)"
proof (induction xs arbitrary: st i k)
  case Nil
  then show ?case by simp
next
  case (Cons x xs)
  obtain st' x' c where r: "f st x i = (st', x', c)" by (cases "f st x i")
  have x': "P i x x'" using f [of i x st] r by simp
  show ?case
  proof (cases k)
    case 0
    then show ?thesis using x' r by (simp only: snd_forEach_Cons) simp
  next
    case (Suc k')
    then have k': "k' < length xs" using Cons.prems by simp
    show ?thesis
    proof (cases c)
      case True
      from Cons.IH [OF k', of "Suc i" st'] show ?thesis
        using Suc r True by (simp only: snd_forEach_Cons) simp
    next
      case False
      from same [of "i + k" "xs ! k'"] show ?thesis
        using Suc r False by (simp only: snd_forEach_Cons) simp
    qed
  qed
qed

lemma refresh_keeps_active:
  assumes "i < length (children s)" and "active (children s ! i)"
  shows "active (children (refresh s) ! i)"
proof -
  have "active (children s ! i) \<longrightarrow>
        active (snd (forEach (refresh_iteratee s) 0 0 (children s)) ! i)"
    using forEach_pointwise [of "\<lambda>j x y. active x \<longrightarrow> active y" "refresh_iteratee s"
            i "children s" 0 0] assms(1)
    by (simp add: refresh_iteratee_def Let_def)
  with assms(2) show ?thesis by (simp add: children_refresh)
qed

lemma initialItemRefresh_keeps_active:
  assumes "i < length (children s)" and "active (children s ! i)"
  shows "active (children (initialItemRefresh s) ! i)"
proof -
  have "active (children s ! i) \<longrightarrow>
        active (snd (forEach (initialItemRefresh_iteratee s) () 0 (children s)) ! i)"
    using forEach_pointwise [of "\<lambda>j x y. active x \<longrightarrow> active y"
            "initialItemRefresh_iteratee s" i "children s" 0 "()"] assms(1)
    by (simp add: initialItemRefresh_iteratee_def)
  with assms(2) show ?thesis by (simp add: children_initialItemRefresh)
qed

lemma engine_run_keeps_active:
  assumes "i < length (children s)" and "active (children s ! i)"
  shows "i < length (children (engine_run r s)) \<and> active (children (engine_run r s) ! i)"
proof (cases r)
  case (Pair el k)
  let ?s = "s\<lparr>scrollingElement := el\<rparr>"
  have pre: "i < length (children ?s)" "active (children ?s ! i)" using assms by simp_all
  show ?thesis
  proof (cases k)
    case Refresh
    with Pair refresh_keeps_active [OF pre] assms(1) show ?thesis
      by (simp add: engine_run_def children_refresh length_forEach)
  next
    case InitialItemRefresh
    with Pair initialItemRefresh_keeps_active [OF pre] assms(1) show ?thesis
      by (simp add: engine_run_def children_initialItemRefresh length_forEach)
  qed
qed

subsection \<open>Activation is a latch\<close>

text \<open>
  Claim C1. Once the flag \<^verbatim>\<open>active\<close> of a child is true, it is true after every sequence
  of runs of \<^verbatim>\<open>refresh\<close> and \<^verbatim>\<open>initialItemRefresh\<close>, whatever the scrolling element
  looks like at each run, and the child is still at its index.
\<close>

theorem active_latch:
  "i < length (children s) \<Longrightarrow> active (children s ! i) \<Longrightarrow>
   i < length (children (engine_runs rs s)) \<and> active (children (engine_runs rs s) ! i)"
proof (induction rs arbitrary: s)
  case Nil
  then show ?case by (simp add: engine_runs_def)
next
  case (Cons r rs)
  from engine_run_keeps_active [OF Cons.prems, of r]
  have "i < length (children (engine_run r s))" "active (children (engine_run r s) ! i)"
    by simp_all
  from Cons.IH [OF this] show ?case by (simp add: engine_runs_def)
qed

theorem active_latch_witness:
  "(1::nat) < length (children (vertical_list False 0 None (target 0 400 1000)
                                  [row 0 False, row 5000 True]))
   \<and> active (children (vertical_list False 0 None (target 0 400 1000)
                         [row 0 False, row 5000 True]) ! 1)
   \<and> 1 < length (children (engine_runs
            [(target 0 400 1000, InitialItemRefresh), (target 600 400 1000, Refresh),
             (target 0 0 0, Refresh)]
            (vertical_list False 0 None (target 0 400 1000) [row 0 False, row 5000 True])))
   \<and> active (children (engine_runs
            [(target 0 400 1000, InitialItemRefresh), (target 600 400 1000, Refresh),
             (target 0 0 0, Refresh)]
            (vertical_list False 0 None (target 0 400 1000) [row 0 False, row 5000 True])) ! 1)"
  using active_latch [of 1 "vertical_list False 0 None (target 0 400 1000)
                              [row 0 False, row 5000 True]"
          "[(target 0 400 1000, InitialItemRefresh), (target 600 400 1000, Refresh),
            (target 0 0 0, Refresh)]"]
  by (simp add: vertical_list_def row_def)

subsection \<open>What the two loops compute\<close>

lemma map_floor_past:
  "\<not> (initialItemsCount s \<noteq> 0 \<and> int i < initialItemsCount s) \<Longrightarrow>
   map (\<lambda>(j, e). if initialItemsCount s \<noteq> 0 \<and> int j < initialItemsCount s
                  then e\<lparr>active := True\<rparr> else e) (enumerate i xs) = xs"
  by (induction xs arbitrary: i) auto

lemma initial_scan_map:
  "snd (forEach (initialItemRefresh_iteratee s) u i xs) =
   map (\<lambda>(j, e). if initialItemsCount s \<noteq> 0 \<and> int j < initialItemsCount s
                  then e\<lparr>active := True\<rparr> else e) (enumerate i xs)"
proof (induction xs arbitrary: i u)
  case Nil
  show ?case by simp
next
  case (Cons x xs)
  show ?case
  proof (cases "active x \<or> (initialItemsCount s \<noteq> 0 \<and> int i < initialItemsCount s)")
    case True
    then show ?thesis
      by (simp only: snd_forEach_Cons) (auto simp: initialItemRefresh_iteratee_def Cons.IH)
  next
    case False
    then have "\<not> (initialItemsCount s \<noteq> 0 \<and> int (Suc i) < initialItemsCount s)" by auto
    from map_floor_past [OF this, of xs] False show ?thesis
      by (simp only: snd_forEach_Cons) (auto simp: initialItemRefresh_iteratee_def)
  qed
qed

lemma nonContinuous_scan_map:
  assumes "nonContinuous s"
  shows "snd (forEach (refresh_iteratee s) lv i xs) =
   map (\<lambda>(j, e). if (initialItemsCount s \<noteq> 0 \<and> int j < initialItemsCount s)
                     \<or> (elStartPos s e < viewportExtendedBottom s
                        \<and> (elStartPos s e > viewportTop s \<or> elStartPos s e > viewportExtendedTop s))
                  then e\<lparr>active := True\<rparr> else e) (enumerate i xs)"
proof (induction xs arbitrary: i)
  case Nil
  show ?case by simp
next
  case (Cons x xs)
  show ?case using assms
    by (simp only: snd_forEach_Cons) (auto simp: refresh_iteratee_def Cons.IH)
qed

lemma refresh_scan_idem:
  "snd (forEach (refresh_iteratee s) 0 i (snd (forEach (refresh_iteratee s) lv i xs))) =
   snd (forEach (refresh_iteratee s) lv i xs)"
proof (induction xs arbitrary: lv i)
  case Nil
  show ?case by simp
next
  case (Cons x xs)
  obtain lv' x' c where r: "refresh_iteratee s lv x i = (lv', x', c)"
    by (cases "refresh_iteratee s lv x i")
  show ?case
  proof (cases c)
    case True
    with r have first: "snd (forEach (refresh_iteratee s) lv i (x # xs)) =
        x' # snd (forEach (refresh_iteratee s) lv' (Suc i) xs)"
      by (simp only: snd_forEach_Cons) simp
    have again: "refresh_iteratee s 0 x' i = (0, x', True)"
    proof (cases "active x'")
      case True
      then show ?thesis by (simp add: refresh_iteratee_def)
    next
      case False
      with r \<open>c\<close> have "nonContinuous s" and "x' = x"
        by (auto simp: refresh_iteratee_def Let_def split: if_splits)
      with r \<open>c\<close> show ?thesis
        by (auto simp: refresh_iteratee_def Let_def split: if_splits)
    qed
    show ?thesis
      unfolding first
      by (simp only: snd_forEach_Cons) (simp add: again Cons.IH)
  next
    case False
    with r have first: "snd (forEach (refresh_iteratee s) lv i (x # xs)) = x' # xs"
      by (simp only: snd_forEach_Cons) simp
    from r False have "x' = x" and "\<exists>l. refresh_iteratee s 0 x i = (l, x, False)"
      by (auto simp: refresh_iteratee_def Let_def split: if_splits option.splits)
    then show ?thesis
      unfolding first
      by (simp only: snd_forEach_Cons) auto
  qed
qed

lemma initial_scan_idem:
  "snd (forEach (initialItemRefresh_iteratee s) () i
          (snd (forEach (initialItemRefresh_iteratee s) () i xs))) =
   snd (forEach (initialItemRefresh_iteratee s) () i xs)"
proof (induction xs arbitrary: i)
  case Nil
  show ?case by simp
next
  case (Cons x xs)
  show ?case
  proof (cases "active x \<or> (initialItemsCount s \<noteq> 0 \<and> int i < initialItemsCount s)")
    case True
    then have r: "initialItemRefresh_iteratee s () x i = ((), x\<lparr>active := True\<rparr>, True)"
      by (auto simp: initialItemRefresh_iteratee_def)
    have again: "initialItemRefresh_iteratee s () (x\<lparr>active := True\<rparr>) i =
        ((), x\<lparr>active := True\<rparr>, True)"
      by (simp add: initialItemRefresh_iteratee_def)
    have first: "snd (forEach (initialItemRefresh_iteratee s) () i (x # xs)) =
        x\<lparr>active := True\<rparr> # snd (forEach (initialItemRefresh_iteratee s) () (Suc i) xs)"
      by (simp only: snd_forEach_Cons r) simp
    show ?thesis
      unfolding first
      by (simp only: snd_forEach_Cons again) (simp add: Cons.IH)
  next
    case False
    then have r: "initialItemRefresh_iteratee s () x i = ((), x, False)"
      by (auto simp: initialItemRefresh_iteratee_def)
    have first: "snd (forEach (initialItemRefresh_iteratee s) () i (x # xs)) = x # xs"
      by (simp only: snd_forEach_Cons r) simp
    show ?thesis
      unfolding first
      by (simp add: snd_forEach_Cons r del: forEach.simps)
  qed
qed

lemma floor_scan:
  assumes f: "\<And>st x j. int j < ic \<Longrightarrow> active (fst (snd (f st x j))) \<and> snd (snd (f st x j))"
  shows "k < length xs \<Longrightarrow> int (i + k) < ic \<Longrightarrow> active (snd (forEach f st i xs) ! k)"
proof (induction xs arbitrary: st i k)
  case Nil
  then show ?case by simp
next
  case (Cons x xs)
  obtain st' x' c where r: "f st x i = (st', x', c)" by (cases "f st x i")
  have "int i < ic" using Cons.prems by simp
  from f [OF this, of st x] r have x': "active x'" and c: c by simp_all
  show ?case
  proof (cases k)
    case 0
    then show ?thesis using x' r by (simp only: snd_forEach_Cons) simp
  next
    case (Suc k')
    then have "k' < length xs" "int (Suc i + k') < ic" using Cons.prems by simp_all
    from Cons.IH [OF this, of st'] show ?thesis
      using Suc r c by (simp only: snd_forEach_Cons) simp
  qed
qed

text \<open>
  While every child before index \<open>k\<close> is active after the loop, the loop has not been
  left before \<open>k\<close>, and the child at \<open>k\<close> is what the iteratee made of it.
\<close>

lemma forEach_reached:
  assumes f: "\<And>st x j. active (fst (snd (f st x j))) \<Longrightarrow> snd (snd (f st x j))"
  shows "k < length xs \<Longrightarrow> (\<forall>j<k. active (snd (forEach f st i xs) ! j)) \<Longrightarrow>
     snd (forEach f st i xs) ! k = fst (snd (f (fst (forEach f st i (take k xs))) (xs ! k) (i + k)))"
proof (induction xs arbitrary: st i k)
  case Nil
  then show ?case by simp
next
  case (Cons x xs)
  obtain st' x' c where r: "f st x i = (st', x', c)" by (cases "f st x i")
  show ?case
  proof (cases k)
    case 0
    then show ?thesis using r by (simp only: snd_forEach_Cons) simp
  next
    case (Suc k')
    then have k': "k' < length xs" using Cons.prems by simp
    from Cons.prems(2) Suc have "active (snd (forEach f st i (x # xs)) ! 0)" by blast
    with r have "active x'" by (simp only: snd_forEach_Cons) simp
    with f [of st x i] r have c by simp
    with r have first: "snd (forEach f st i (x # xs)) = x' # snd (forEach f st' (Suc i) xs)"
      by (simp only: snd_forEach_Cons) simp
    have "\<forall>j<k'. active (snd (forEach f st' (Suc i) xs) ! j)"
    proof (intro allI impI)
      fix j assume "j < k'"
      then have "Suc j < k" using Suc by simp
      with Cons.prems(2) have "active (snd (forEach f st i (x # xs)) ! Suc j)" by blast
      then show "active (snd (forEach f st' (Suc i) xs) ! j)" unfolding first by simp
    qed
    from Cons.IH [OF k' this] show ?thesis
      unfolding first using Suc r \<open>c\<close> by (simp add: fst_forEach_Cons del: forEach.simps)
  qed
qed

lemma continuous_stop:
  assumes "\<not> nonContinuous s"
  shows "k < length xs \<Longrightarrow> \<not> active (snd (forEach (refresh_iteratee s) lv i xs) ! k) \<Longrightarrow>
     drop k (snd (forEach (refresh_iteratee s) lv i xs)) = drop k xs"
proof (induction xs arbitrary: lv i k)
  case Nil
  then show ?case by simp
next
  case (Cons x xs)
  obtain lv' x' c where r: "refresh_iteratee s lv x i = (lv', x', c)"
    by (cases "refresh_iteratee s lv x i")
  show ?case
  proof (cases c)
    case False
    with r have "x' = x"
      by (auto simp: refresh_iteratee_def Let_def split: if_splits)
    with r False show ?thesis by (simp only: snd_forEach_Cons) simp
  next
    case True
    with r assms have x': "active x'"
      by (auto simp: refresh_iteratee_def Let_def split: if_splits)
    from r True have first: "snd (forEach (refresh_iteratee s) lv i (x # xs)) =
        x' # snd (forEach (refresh_iteratee s) lv' (Suc i) xs)"
      by (simp only: snd_forEach_Cons) simp
    show ?thesis
    proof (cases k)
      case 0
      with Cons.prems(2) x' show ?thesis unfolding first by simp
    next
      case (Suc k')
      with Cons.prems have "k' < length xs"
        "\<not> active (snd (forEach (refresh_iteratee s) lv' (Suc i) xs) ! k')"
        unfolding first by simp_all
      from Cons.IH [OF this] show ?thesis unfolding first using Suc by simp
    qed
  qed
qed

subsection \<open>The example lists\<close>

lemma vertical_list_simps:
  "findContentLength (vertical_list nc ic pc (target sc vp ct) cs) = ct"
  "findViewportLength (vertical_list nc ic pc (target sc vp ct) cs) = vp"
  "findScorllLength (vertical_list nc ic pc (target sc vp ct) cs) = sc"
  "viewportBottom (vertical_list nc ic pc (target sc vp ct) cs) = sc + vp"
  "viewportTop (vertical_list nc ic pc (target sc vp ct) cs) = sc - vp"
  "viewportExtendedBottom (vertical_list nc ic pc (target sc vp ct) cs) = sc + vp + vp / 2"
  "viewportExtendedTop (vertical_list nc ic pc (target sc vp ct) cs) = sc - vp - vp / 2"
  "elStartPos (vertical_list nc ic pc el cs) (row p a) = p"
  "children (vertical_list nc ic pc el cs) = cs"
  "findLazyChildren (vertical_list nc ic pc el cs) = cs"
  "nonContinuous (vertical_list nc ic pc el cs) = nc"
  "initialItemsCount (vertical_list nc ic pc el cs) = ic"
  "prerenderItemsCount (vertical_list nc ic pc el cs) = pc"
  by (simp_all add: vertical_list_def target_def row_def findContentLength_def
        findViewportLength_def findScorllLength_def viewportBottom_def viewportTop_def
        viewportExtendedBottom_def viewportExtendedTop_def elStartPos_def or_zero_def
        findLazyChildren_def)

lemma row_simps:
  "active (row p a) = a"
  "(row p a)\<lparr>active := b\<rparr> = row p b"
  "(row p a = row q b) = (p = q \<and> a = b)"
  by (auto simp: row_def)

subsection \<open>The scroll properties of a run\<close>

text \<open>
  Claim C6. After \<^verbatim>\<open>refresh\<close>, and likewise after \<^verbatim>\<open>initialItemRefresh\<close>, the three
  scroll properties are functions of the content length, the viewport length and the
  scroll length alone: \<^verbatim>\<open>_hasScroll\<close> is content > viewport, \<^verbatim>\<open>_scrollTop\<close> adds
  scroll = 0, \<^verbatim>\<open>_scrollBottom\<close> adds content = viewport + scroll. At content 1000,
  viewport 400 and scroll 0 they are true, true, false; at scroll 600 the last is true;
  at content 400 and viewport 400 the first is false for every scroll length.
\<close>

theorem boundary_flags:
  "u_hasScroll (refresh s) = (findContentLength s > findViewportLength s)
   \<and> u_scrollTop (refresh s) =
       (findContentLength s > findViewportLength s \<and> findScorllLength s = 0)
   \<and> u_scrollBottom (refresh s) =
       (findContentLength s > findViewportLength s
        \<and> findContentLength s = findViewportLength s + findScorllLength s)
   \<and> u_hasScroll (initialItemRefresh s) = u_hasScroll (refresh s)
   \<and> u_scrollTop (initialItemRefresh s) = u_scrollTop (refresh s)
   \<and> u_scrollBottom (initialItemRefresh s) = u_scrollBottom (refresh s)
   \<and> (findContentLength s = 1000 \<and> findViewportLength s = 400 \<and> findScorllLength s = 0
        \<longrightarrow> u_hasScroll (refresh s) \<and> u_scrollTop (refresh s) \<and> \<not> u_scrollBottom (refresh s))
   \<and> (findContentLength s = 1000 \<and> findViewportLength s = 400 \<and> findScorllLength s = 600
        \<longrightarrow> u_scrollBottom (refresh s))
   \<and> (findContentLength s = 400 \<and> findViewportLength s = 400 \<longrightarrow> \<not> u_hasScroll (refresh s))"
  by (simp add: refresh_def initialItemRefresh_def refreshScrollProps_def Let_def)

theorem boundary_flags_witness:
  "findContentLength (vertical_list False 10 None (target 0 400 1000) []) = 1000
   \<and> findViewportLength (vertical_list False 10 None (target 0 400 1000) []) = 400
   \<and> findScorllLength (vertical_list False 10 None (target 0 400 1000) []) = 0
   \<and> u_hasScroll (refresh (vertical_list False 10 None (target 0 400 1000) []))
   \<and> u_scrollTop (refresh (vertical_list False 10 None (target 0 400 1000) []))
   \<and> \<not> u_scrollBottom (refresh (vertical_list False 10 None (target 0 400 1000) []))
   \<and> findScorllLength (vertical_list False 10 None (target 600 400 1000) []) = 600
   \<and> u_scrollBottom (refresh (vertical_list False 10 None (target 600 400 1000) []))
   \<and> findContentLength (vertical_list False 10 None (target 123 400 400) []) = 400
   \<and> \<not> u_hasScroll (refresh (vertical_list False 10 None (target 123 400 400) []))"
  using boundary_flags [of "vertical_list False 10 None (target 0 400 1000) []"]
    boundary_flags [of "vertical_list False 10 None (target 600 400 1000) []"]
    boundary_flags [of "vertical_list False 10 None (target 123 400 400) []"]
  by (simp add: vertical_list_simps)

subsection \<open>A second run changes nothing\<close>

lemma refresh_eq:
  "refresh s = s\<lparr>u_hasScroll := findContentLength s > findViewportLength s,
       u_scrollTop := (findContentLength s > findViewportLength s \<and> findScorllLength s = 0),
       u_scrollBottom := (findContentLength s > findViewportLength s
          \<and> findContentLength s = findViewportLength s + findScorllLength s),
       children := snd (forEach (refresh_iteratee s) 0 0 (children s))\<rparr>"
  using children_refresh [of s]
  by (simp add: refresh_def refreshScrollProps_def Let_def)

lemma initialItemRefresh_eq:
  "initialItemRefresh s = s\<lparr>u_hasScroll := findContentLength s > findViewportLength s,
       u_scrollTop := (findContentLength s > findViewportLength s \<and> findScorllLength s = 0),
       u_scrollBottom := (findContentLength s > findViewportLength s
          \<and> findContentLength s = findViewportLength s + findScorllLength s),
       children := snd (forEach (initialItemRefresh_iteratee s) () 0 (children s))\<rparr>"
  using children_initialItemRefresh [of s]
  by (simp add: initialItemRefresh_def refreshScrollProps_def Let_def)

lemma geometry_flags_children_update:
  "findContentLength (s\<lparr>u_hasScroll := a, u_scrollTop := b, u_scrollBottom := c, children := cs\<rparr>)
     = findContentLength s"
  "findViewportLength (s\<lparr>u_hasScroll := a, u_scrollTop := b, u_scrollBottom := c, children := cs\<rparr>)
     = findViewportLength s"
  "findScorllLength (s\<lparr>u_hasScroll := a, u_scrollTop := b, u_scrollBottom := c, children := cs\<rparr>)
     = findScorllLength s"
  by (simp_all add: findContentLength_def findViewportLength_def findScorllLength_def)

lemma iteratee_flags_children_update:
  "refresh_iteratee (s\<lparr>u_hasScroll := a, u_scrollTop := b, u_scrollBottom := c, children := cs\<rparr>)
     = refresh_iteratee s"
  "initialItemRefresh_iteratee
     (s\<lparr>u_hasScroll := a, u_scrollTop := b, u_scrollBottom := c, children := cs\<rparr>)
     = initialItemRefresh_iteratee s"
  by (intro ext, simp add: refresh_iteratee_def Let_def elStartPos_def
        viewportBottom_def viewportTop_def viewportExtendedBottom_def viewportExtendedTop_def
        findViewportLength_def findScorllLength_def,
      intro ext, simp add: initialItemRefresh_iteratee_def)

lemma refresh_preserves:
  "findContentLength (refresh s) = findContentLength s"
  "findViewportLength (refresh s) = findViewportLength s"
  "findScorllLength (refresh s) = findScorllLength s"
  "refresh_iteratee (refresh s) = refresh_iteratee s"
  by (subst refresh_eq,
      simp only: geometry_flags_children_update iteratee_flags_children_update)+

lemma initialItemRefresh_preserves:
  "findContentLength (initialItemRefresh s) = findContentLength s"
  "findViewportLength (initialItemRefresh s) = findViewportLength s"
  "findScorllLength (initialItemRefresh s) = findScorllLength s"
  "initialItemRefresh_iteratee (initialItemRefresh s) = initialItemRefresh_iteratee s"
  by (subst initialItemRefresh_eq,
      simp only: geometry_flags_children_update iteratee_flags_children_update)+

text \<open>
  Claim C8. A second \<^verbatim>\<open>refresh\<close> on the component as the first one left it, with the
  scrolling element and the offsets unchanged, returns the same component: the same
  active children and the same scroll properties. The same holds for
  \<^verbatim>\<open>initialItemRefresh\<close>.
\<close>

theorem refresh_idempotent:
  "refresh (refresh s) = refresh s
   \<and> initialItemRefresh (initialItemRefresh s) = initialItemRefresh s"
proof
  have "snd (forEach (refresh_iteratee s) 0 0 (children (refresh s))) = children (refresh s)"
    by (simp only: children_refresh refresh_scan_idem)
  then have "refresh (refresh s) =
      (refresh s)\<lparr>u_hasScroll := findContentLength s > findViewportLength s,
       u_scrollTop := (findContentLength s > findViewportLength s \<and> findScorllLength s = 0),
       u_scrollBottom := (findContentLength s > findViewportLength s
          \<and> findContentLength s = findViewportLength s + findScorllLength s),
       children := children (refresh s)\<rparr>"
    using refresh_eq [of "refresh s"] by (simp only: refresh_preserves)
  also have "\<dots> = refresh s"
    by (simp add: refresh_eq)
  finally show "refresh (refresh s) = refresh s" .
next
  have "snd (forEach (initialItemRefresh_iteratee s) () 0 (children (initialItemRefresh s)))
      = children (initialItemRefresh s)"
    by (simp only: children_initialItemRefresh initial_scan_idem)
  then have "initialItemRefresh (initialItemRefresh s) =
      (initialItemRefresh s)\<lparr>u_hasScroll := findContentLength s > findViewportLength s,
       u_scrollTop := (findContentLength s > findViewportLength s \<and> findScorllLength s = 0),
       u_scrollBottom := (findContentLength s > findViewportLength s
          \<and> findContentLength s = findViewportLength s + findScorllLength s),
       children := children (initialItemRefresh s)\<rparr>"
    using initialItemRefresh_eq [of "initialItemRefresh s"]
    by (simp only: initialItemRefresh_preserves)
  also have "\<dots> = initialItemRefresh s"
    by (simp add: initialItemRefresh_eq)
  finally show "initialItemRefresh (initialItemRefresh s) = initialItemRefresh s" .
qed

subsection \<open>The initial refresh\<close>

text \<open>
  Claim C10. \<^verbatim>\<open>initialItemRefresh\<close> reads no offset and no window: it sets the three
  scroll properties, sets \<^verbatim>\<open>active\<close> on the children whose index is below a nonzero
  \<^verbatim>\<open>initialItemsCount\<close>, and leaves every other child and every other field as it was.
\<close>

theorem initialItemRefresh_frame:
  "initialItemRefresh s =
     s\<lparr>u_hasScroll := findContentLength s > findViewportLength s,
       u_scrollTop := (findContentLength s > findViewportLength s \<and> findScorllLength s = 0),
       u_scrollBottom := (findContentLength s > findViewportLength s
          \<and> findContentLength s = findViewportLength s + findScorllLength s),
       children := map (\<lambda>(j, e). if initialItemsCount s \<noteq> 0 \<and> int j < initialItemsCount s
                                  then e\<lparr>active := True\<rparr> else e)
                     (enumerate 0 (children s))\<rparr>"
  by (subst initialItemRefresh_eq) (simp only: initial_scan_map)

subsection \<open>The test of the non-continuous mode\<close>

lemma window_prerenderItemsCount:
  "elStartPos (s\<lparr>prerenderItemsCount := pc\<rparr>) = elStartPos s"
  "viewportTop (s\<lparr>prerenderItemsCount := pc\<rparr>) = viewportTop s"
  "viewportExtendedTop (s\<lparr>prerenderItemsCount := pc\<rparr>) = viewportExtendedTop s"
  "viewportExtendedBottom (s\<lparr>prerenderItemsCount := pc\<rparr>) = viewportExtendedBottom s"
  by (intro ext, simp add: elStartPos_def)
     (simp_all add: viewportBottom_def viewportTop_def viewportExtendedBottom_def
        viewportExtendedTop_def findViewportLength_def findScorllLength_def)

lemma refresh_iteratee_prerenderItemsCount:
  "nonContinuous s \<Longrightarrow>
   refresh_iteratee (s\<lparr>prerenderItemsCount := pc\<rparr>) lv x i = refresh_iteratee s lv x i"
  by (simp add: refresh_iteratee_def window_prerenderItemsCount)

lemma forEach_cong_iteratee:
  assumes "\<And>st x i. f st x i = g st x i"
  shows "forEach f st i xs = forEach g st i xs"
proof (induction xs arbitrary: st i)
  case Nil
  show ?case by simp
next
  case (Cons x xs)
  show ?case by (simp add: assms Cons.IH)
qed

lemma nonContinuous_prerenderItemsCount:
  assumes "nonContinuous s"
  shows "refresh (s\<lparr>prerenderItemsCount := pc\<rparr>) = (refresh s)\<lparr>prerenderItemsCount := pc\<rparr>"
proof -
  have "forEach (refresh_iteratee (s\<lparr>prerenderItemsCount := pc\<rparr>)) 0 0 (children s) =
        forEach (refresh_iteratee s) 0 0 (children s)"
    by (rule forEach_cong_iteratee) (rule refresh_iteratee_prerenderItemsCount [OF assms])
  then show ?thesis
    by (simp add: refresh_eq findContentLength_def findViewportLength_def findScorllLength_def)
qed

text \<open>
  Claim C3. With \<^verbatim>\<open>nonContinuous\<close> set, \<^verbatim>\<open>refresh\<close> keeps the number of children, and a
  child that is not active and whose index is at least \<^verbatim>\<open>initialItemsCount\<close> is active
  afterwards exactly when its start position is below \<^verbatim>\<open>viewportExtendedBottom\<close> and above
  \<^verbatim>\<open>viewportTop\<close> or \<^verbatim>\<open>viewportExtendedTop\<close>. The child after the run is a function of
  the child before and the window alone, whatever the other children are, so the loop is
  never left early; and \<^verbatim>\<open>prerenderItemsCount\<close> has no influence on the result.
\<close>

theorem nonContinuous_local_test:
  assumes "nonContinuous s" and "i < length (children s)"
    and "\<not> active (children s ! i)" and "initialItemsCount s \<le> int i"
  shows "length (children (refresh s)) = length (children s)
    \<and> active (children (refresh s) ! i) =
        (elStartPos s (children s ! i) < viewportExtendedBottom s
         \<and> (elStartPos s (children s ! i) > viewportTop s
            \<or> elStartPos s (children s ! i) > viewportExtendedTop s))
    \<and> children (refresh s) ! i =
        (if elStartPos s (children s ! i) < viewportExtendedBottom s
            \<and> (elStartPos s (children s ! i) > viewportTop s
               \<or> elStartPos s (children s ! i) > viewportExtendedTop s)
         then (children s ! i)\<lparr>active := True\<rparr> else children s ! i)
    \<and> refresh (s\<lparr>prerenderItemsCount := pc\<rparr>) = (refresh s)\<lparr>prerenderItemsCount := pc\<rparr>"
proof -
  have len: "length (children (refresh s)) = length (children s)"
    by (simp add: children_refresh length_forEach)
  have nth: "children (refresh s) ! i =
        (if elStartPos s (children s ! i) < viewportExtendedBottom s
            \<and> (elStartPos s (children s ! i) > viewportTop s
               \<or> elStartPos s (children s ! i) > viewportExtendedTop s)
         then (children s ! i)\<lparr>active := True\<rparr> else children s ! i)"
    using assms(2,4)
    by (simp add: children_refresh nonContinuous_scan_map [OF assms(1)] nth_enumerate_eq)
  from nth assms(3) have act: "active (children (refresh s) ! i) =
        (elStartPos s (children s ! i) < viewportExtendedBottom s
         \<and> (elStartPos s (children s ! i) > viewportTop s
            \<or> elStartPos s (children s ! i) > viewportExtendedTop s))"
    by simp
  from len nth act nonContinuous_prerenderItemsCount [OF assms(1)] show ?thesis by blast
qed

lemma refresh_example_unfold:
  "children (refresh (vertical_list nc ic pc el cs)) =
     snd (forEach (refresh_iteratee (vertical_list nc ic pc el cs)) 0 0 cs)"
  by (simp add: children_refresh vertical_list_simps)

text \<open>
  Six children, the fifth far below the window and the sixth inside it: the fifth stays
  inactive, the sixth becomes active.
\<close>

theorem nonContinuous_local_test_witness:
  "nonContinuous (vertical_list True 0 (Some 100) (target 0 400 6000)
      [row 0 False, row 100 False, row 200 False, row 300 False, row 5000 False, row 500 False])
   \<and> (4::nat) < length (children (vertical_list True 0 (Some 100) (target 0 400 6000)
      [row 0 False, row 100 False, row 200 False, row 300 False, row 5000 False, row 500 False]))
   \<and> \<not> active (children (vertical_list True 0 (Some 100) (target 0 400 6000)
      [row 0 False, row 100 False, row 200 False, row 300 False, row 5000 False, row 500 False]) ! 4)
   \<and> initialItemsCount (vertical_list True 0 (Some 100) (target 0 400 6000)
      [row 0 False, row 100 False, row 200 False, row 300 False, row 5000 False, row 500 False]) \<le> 4
   \<and> \<not> active (children (refresh (vertical_list True 0 (Some 100) (target 0 400 6000)
      [row 0 False, row 100 False, row 200 False, row 300 False, row 5000 False, row 500 False])) ! 4)
   \<and> active (children (refresh (vertical_list True 0 (Some 100) (target 0 400 6000)
      [row 0 False, row 100 False, row 200 False, row 300 False, row 5000 False, row 500 False])) ! 5)"
  using nonContinuous_local_test [of "vertical_list True 0 (Some 100) (target 0 400 6000)
      [row 0 False, row 100 False, row 200 False, row 300 False, row 5000 False, row 500 False]" 4]
    nonContinuous_local_test [of "vertical_list True 0 (Some 100) (target 0 400 6000)
      [row 0 False, row 100 False, row 200 False, row 300 False, row 5000 False, row 500 False]" 5]
  by (simp add: vertical_list_simps row_simps)

subsection \<open>The initial items\<close>

lemma refresh_activation_ground:
  assumes "i < length (children s)" and "\<not> active (children s ! i)"
    and "active (children (refresh s) ! i)"
  shows "(initialItemsCount s \<noteq> 0 \<and> int i < initialItemsCount s)
     \<or> elStartPos s (children s ! i) < viewportExtendedBottom s
     \<or> (\<not> nonContinuous s \<and> prerenderItemsCount s \<noteq> None)"
proof -
  let ?P = "\<lambda>j x y. \<not> active x \<and> active y \<longrightarrow>
      (initialItemsCount s \<noteq> 0 \<and> int j < initialItemsCount s)
      \<or> elStartPos s x < viewportExtendedBottom s
      \<or> (\<not> nonContinuous s \<and> prerenderItemsCount s \<noteq> None)"
  have "?P (0 + i) (children s ! i) (snd (forEach (refresh_iteratee s) 0 0 (children s)) ! i)"
  proof (rule forEach_pointwise [where P = ?P, OF _ _ assms(1)])
    fix st x j
    show "?P j x (fst (snd (refresh_iteratee s st x j)))"
      by (auto simp: refresh_iteratee_def Let_def split: option.splits)
  next
    fix j x
    show "?P j x x" by simp
  qed
  with assms(2,3) show ?thesis by (simp add: children_refresh)
qed

text \<open>
  Claim C7. A child whose index is below \<^verbatim>\<open>initialItemsCount\<close> is active after
  \<^verbatim>\<open>initialItemRefresh\<close> and after \<^verbatim>\<open>refresh\<close>, whatever the scroll length, the content
  length and the viewport length are. With \<^verbatim>\<open>initialItemsCount\<close> zero,
  \<^verbatim>\<open>initialItemRefresh\<close> changes no child, and a child that \<^verbatim>\<open>refresh\<close> activates is
  one below \<^verbatim>\<open>viewportExtendedBottom\<close> or, in continuous mode, one that
  \<^verbatim>\<open>prerenderItemsCount\<close> can reach.
\<close>

theorem initial_floor:
  "(i < length (children s) \<and> int i < initialItemsCount s \<longrightarrow>
      active (children (initialItemRefresh s) ! i) \<and> active (children (refresh s) ! i))
   \<and> (initialItemsCount s = 0 \<longrightarrow> children (initialItemRefresh s) = children s)
   \<and> (initialItemsCount s = 0 \<and> i < length (children s) \<and> \<not> active (children s ! i)
        \<and> active (children (refresh s) ! i) \<longrightarrow>
      elStartPos s (children s ! i) < viewportExtendedBottom s
      \<or> (\<not> nonContinuous s \<and> prerenderItemsCount s \<noteq> None))"
proof (intro conjI impI)
  assume a: "i < length (children s) \<and> int i < initialItemsCount s"
  then have i: "i < length (children s)" and ic: "int (0 + i) < initialItemsCount s" by simp_all
  have "active (snd (forEach (initialItemRefresh_iteratee s) () 0 (children s)) ! i)"
  proof (rule floor_scan [OF _ i ic])
    fix st x j
    assume "int j < initialItemsCount s"
    then show "active (fst (snd (initialItemRefresh_iteratee s st x j)))
        \<and> snd (snd (initialItemRefresh_iteratee s st x j))"
      by (auto simp: initialItemRefresh_iteratee_def)
  qed
  then show "active (children (initialItemRefresh s) ! i)"
    by (simp add: children_initialItemRefresh)
  have "active (snd (forEach (refresh_iteratee s) 0 0 (children s)) ! i)"
  proof (rule floor_scan [OF _ i ic])
    fix st x j
    assume "int j < initialItemsCount s"
    then show "active (fst (snd (refresh_iteratee s st x j)))
        \<and> snd (snd (refresh_iteratee s st x j))"
      by (auto simp: refresh_iteratee_def)
  qed
  then show "active (children (refresh s) ! i)"
    by (simp add: children_refresh)
next
  assume "initialItemsCount s = 0"
  then show "children (initialItemRefresh s) = children s"
    using map_floor_past [of s 0 "children s"]
    by (simp add: children_initialItemRefresh initial_scan_map)
next
  assume a: "initialItemsCount s = 0 \<and> i < length (children s) \<and> \<not> active (children s ! i)
        \<and> active (children (refresh s) ! i)"
  with refresh_activation_ground [of i s]
  show "elStartPos s (children s ! i) < viewportExtendedBottom s
      \<or> (\<not> nonContinuous s \<and> prerenderItemsCount s \<noteq> None)"
    by simp
qed

lemma refresh_iteratee_row:
  "refresh_iteratee (vertical_list nc ic pc (target sc vp ct) cs) lv (row p a) i =
     (if a then (lv, row p True, True)
      else if ic \<noteq> 0 \<and> int i < ic then (lv, row p True, True)
      else if nc then
        (if p < sc + vp + vp / 2 \<and> (p > sc - vp \<or> p > sc - vp - vp / 2)
         then (lv, row p True, True) else (lv, row p False, True))
      else
        (if p < sc + vp + vp / 2
            \<or> (case pc of None \<Rightarrow> False
                | Some c \<Rightarrow> int i \<le> int (if p < sc + vp then i else lv) + c)
         then (if p < sc + vp then i else lv, row p True, True)
         else (if p < sc + vp then i else lv, row p False, False)))"
  by (cases a) (auto simp: refresh_iteratee_def vertical_list_simps row_simps Let_def)

text \<open>
  A list with a viewport of length 0 and two initial items, and a list without initial
  items whose first child is in the window.
\<close>

theorem initial_floor_witness:
  "(1::nat) < length (children (vertical_list False 2 None (target 100 0 1000)
      [row 0 False, row 700 False, row 900 False]))
   \<and> int 1 < initialItemsCount (vertical_list False 2 None (target 100 0 1000)
      [row 0 False, row 700 False, row 900 False])
   \<and> active (children (initialItemRefresh (vertical_list False 2 None (target 100 0 1000)
      [row 0 False, row 700 False, row 900 False])) ! 1)
   \<and> active (children (refresh (vertical_list False 2 None (target 100 0 1000)
      [row 0 False, row 700 False, row 900 False])) ! 1)
   \<and> initialItemsCount (vertical_list False 0 None (target 0 400 1000)
      [row 0 False, row 700 False]) = 0
   \<and> children (initialItemRefresh (vertical_list False 0 None (target 0 400 1000)
      [row 0 False, row 700 False])) = [row 0 False, row 700 False]
   \<and> (0::nat) < length (children (vertical_list False 0 None (target 0 400 1000)
      [row 0 False, row 700 False]))
   \<and> \<not> active (children (vertical_list False 0 None (target 0 400 1000)
      [row 0 False, row 700 False]) ! 0)
   \<and> active (children (refresh (vertical_list False 0 None (target 0 400 1000)
      [row 0 False, row 700 False])) ! 0)
   \<and> elStartPos (vertical_list False 0 None (target 0 400 1000) [row 0 False, row 700 False])
        (children (vertical_list False 0 None (target 0 400 1000)
           [row 0 False, row 700 False]) ! 0)
       < viewportExtendedBottom (vertical_list False 0 None (target 0 400 1000)
           [row 0 False, row 700 False])"
  using initial_floor [of 1 "vertical_list False 2 None (target 100 0 1000)
      [row 0 False, row 700 False, row 900 False]"]
    initial_floor [of 0 "vertical_list False 0 None (target 0 400 1000)
      [row 0 False, row 700 False]"]
  by (simp add: vertical_list_simps row_simps refresh_example_unfold
        refresh_iteratee_row cong: prod.case_cong_weak)

subsection \<open>The continuous mode leaves the loop\<close>

lemma refresh_iteratee_continues_if_active:
  "active (fst (snd (refresh_iteratee s st x j))) \<Longrightarrow> snd (snd (refresh_iteratee s st x j))"
  by (auto simp: refresh_iteratee_def Let_def split: if_splits)

lemma refresh_reached:
  assumes "k < length (children s)"
    and "list_all active (take k (children (refresh s)))"
  shows "children (refresh s) ! k =
     fst (snd (refresh_iteratee s (lastVisibleElementInViewport_at s k) (children s ! k) k))"
proof -
  have len: "length (children (refresh s)) = length (children s)"
    by (simp add: children_refresh length_forEach)
  have "\<forall>j<k. active (children (refresh s) ! j)"
    using assms len by (simp add: list_all_length)
  then have "\<forall>j<k. active (snd (forEach (refresh_iteratee s) 0 0 (children s)) ! j)"
    by (simp add: children_refresh)
  from forEach_reached [of "refresh_iteratee s", OF refresh_iteratee_continues_if_active
         assms(1) this]
  show ?thesis
    by (simp add: children_refresh lastVisibleElementInViewport_at_def findLazyChildren_def)
qed

lemma refresh_continuous_stop:
  assumes "\<not> nonContinuous s" and "k < length (children s)"
    and "\<not> active (children (refresh s) ! k)"
  shows "drop k (children (refresh s)) = drop k (children s)"
  using continuous_stop [OF assms(1), of k "children s" 0 0] assms(2,3)
  by (simp add: children_refresh)

text \<open>
  Claim C2, as amended. In continuous mode, a child that is not active, whose index is at
  least \<^verbatim>\<open>initialItemsCount\<close> and that fails both tests (its start position is not below
  \<^verbatim>\<open>viewportExtendedBottom\<close>, its index is not within \<^verbatim>\<open>prerenderItemsCount\<close> of
  \<^verbatim>\<open>lastVisibleElementInViewport\<close>) is not active after \<^verbatim>\<open>refresh\<close>, and the iteratee
  returns \<^verbatim>\<open>false\<close> there, which ends the loop of lodash: every child from that index on is
  after the run what it was before, also one that would pass a test.
\<close>

theorem continuous_scan_stops:
  assumes "\<not> nonContinuous s" and "k < length (children s)"
    and "\<not> active (children s ! k)" and "initialItemsCount s \<le> int k"
    and "\<not> elStartPos s (children s ! k) < viewportExtendedBottom s"
    and "\<not> (case prerenderItemsCount s of
              None \<Rightarrow> False
            | Some c \<Rightarrow> int k \<le> int (if elStartPos s (children s ! k) < viewportBottom s then k
                                      else lastVisibleElementInViewport_at s k) + c)"
  shows "\<not> active (children (refresh s) ! k)
     \<and> drop k (children (refresh s)) = drop k (children s)"
proof -
  have inactive: "\<not> active (children (refresh s) ! k)"
  proof (cases "list_all active (take k (children (refresh s)))")
    case True
    from refresh_reached [OF assms(2) True] assms(1,3,4,5,6) show ?thesis
      by (simp add: refresh_iteratee_def Let_def)
  next
    case False
    have len: "length (children (refresh s)) = length (children s)"
      by (simp add: children_refresh length_forEach)
    from False obtain j where j: "j < k" "\<not> active (children (refresh s) ! j)"
      using assms(2) len by (auto simp: list_all_length)
    then have "j < length (children s)" using assms(2) by simp
    from refresh_continuous_stop [OF assms(1) this j(2)]
    have "drop j (children (refresh s)) ! (k - j) = drop j (children s) ! (k - j)" by simp
    with j(1) assms(2) len have "children (refresh s) ! k = children s ! k" by simp
    with assms(3) show ?thesis by simp
  qed
  with refresh_continuous_stop [OF assms(1,2)] show ?thesis by simp
qed

lemma lastVisible_example_unfold:
  "lastVisibleElementInViewport_at (vertical_list nc ic pc el cs) k =
     fst (forEach (refresh_iteratee (vertical_list nc ic pc el cs)) 0 0 (take k cs))"
  by (simp add: lastVisibleElementInViewport_at_def vertical_list_simps)

text \<open>
  The claim as it was stated fails on three children at offsets 0, 10000 and 100 in a
  viewport of length 400: the second fails both tests, and the third, which is inside the
  window, is not activated.
\<close>

theorem continuous_scan_continues_counterexample:
  "\<not> nonContinuous (vertical_list False 0 (Some 0) (target 0 400 10100)
      [row 0 False, row 10000 False, row 100 False])
   \<and> \<not> elStartPos (vertical_list False 0 (Some 0) (target 0 400 10100)
          [row 0 False, row 10000 False, row 100 False]) (row 10000 False)
        < viewportExtendedBottom (vertical_list False 0 (Some 0) (target 0 400 10100)
          [row 0 False, row 10000 False, row 100 False])
   \<and> lastVisibleElementInViewport_at (vertical_list False 0 (Some 0) (target 0 400 10100)
          [row 0 False, row 10000 False, row 100 False]) 1 = 0
   \<and> elStartPos (vertical_list False 0 (Some 0) (target 0 400 10100)
          [row 0 False, row 10000 False, row 100 False]) (row 100 False)
        < viewportExtendedBottom (vertical_list False 0 (Some 0) (target 0 400 10100)
          [row 0 False, row 10000 False, row 100 False])
   \<and> children (refresh (vertical_list False 0 (Some 0) (target 0 400 10100)
        [row 0 False, row 10000 False, row 100 False])) =
      [row 0 True, row 10000 False, row 100 False]"
  by (simp add: vertical_list_simps refresh_example_unfold lastVisible_example_unfold  refresh_iteratee_row cong: prod.case_cong_weak)

text \<open>The same list with a fourth child: everything from the second child on is unchanged.\<close>

theorem continuous_scan_stops_witness:
  "\<not> nonContinuous (vertical_list False 0 (Some 0) (target 0 400 10100)
      [row 0 False, row 10000 False, row 100 False, row 200 True])
   \<and> (1::nat) < length (children (vertical_list False 0 (Some 0) (target 0 400 10100)
      [row 0 False, row 10000 False, row 100 False, row 200 True]))
   \<and> \<not> active (children (vertical_list False 0 (Some 0) (target 0 400 10100)
      [row 0 False, row 10000 False, row 100 False, row 200 True]) ! 1)
   \<and> initialItemsCount (vertical_list False 0 (Some 0) (target 0 400 10100)
      [row 0 False, row 10000 False, row 100 False, row 200 True]) \<le> 1
   \<and> \<not> elStartPos (vertical_list False 0 (Some 0) (target 0 400 10100)
          [row 0 False, row 10000 False, row 100 False, row 200 True]) (row 10000 False)
        < viewportExtendedBottom (vertical_list False 0 (Some 0) (target 0 400 10100)
          [row 0 False, row 10000 False, row 100 False, row 200 True])
   \<and> lastVisibleElementInViewport_at (vertical_list False 0 (Some 0) (target 0 400 10100)
          [row 0 False, row 10000 False, row 100 False, row 200 True]) 1 = 0
   \<and> \<not> active (children (refresh (vertical_list False 0 (Some 0) (target 0 400 10100)
      [row 0 False, row 10000 False, row 100 False, row 200 True])) ! 1)
   \<and> drop 1 (children (refresh (vertical_list False 0 (Some 0) (target 0 400 10100)
      [row 0 False, row 10000 False, row 100 False, row 200 True]))) =
     [row 10000 False, row 100 False, row 200 True]"
  using continuous_scan_stops [of "vertical_list False 0 (Some 0) (target 0 400 10100)
      [row 0 False, row 10000 False, row 100 False, row 200 True]" 1]
  by (simp add: vertical_list_simps row_simps lastVisible_example_unfold  refresh_iteratee_row cong: prod.case_cong_weak)

subsection \<open>The test of the continuous mode\<close>

text \<open>
  Claim C4, as amended. In continuous mode, take a child that the loop reaches (every
  child before it is active after the run), that is not active and whose index is at
  least \<^verbatim>\<open>initialItemsCount\<close>. It is active after \<^verbatim>\<open>refresh\<close> exactly when its start
  position is below \<^verbatim>\<open>viewportExtendedBottom\<close>, or \<^verbatim>\<open>prerenderItemsCount\<close> is a number
  and the index is at most \<^verbatim>\<open>lastVisibleElementInViewport + prerenderItemsCount\<close>, where the
  variable is the index itself when the child is above \<^verbatim>\<open>viewportBottom\<close> and its value
  on arrival otherwise. With \<^verbatim>\<open>prerenderItemsCount\<close> 3 and the variable at 10, the child at
  index 13 below the window becomes active and the child at index 14 does not.
\<close>

theorem continuous_item_test:
  assumes "\<not> nonContinuous s" and "k < length (children s)"
    and "list_all active (take k (children (refresh s)))"
    and "\<not> active (children s ! k)" and "initialItemsCount s \<le> int k"
  shows "active (children (refresh s) ! k) =
       (elStartPos s (children s ! k) < viewportExtendedBottom s
        \<or> (case prerenderItemsCount s of
              None \<Rightarrow> False
            | Some c \<Rightarrow> int k \<le> int (if elStartPos s (children s ! k) < viewportBottom s then k
                                      else lastVisibleElementInViewport_at s k) + c))
     \<and> (prerenderItemsCount s = Some 3 \<and> lastVisibleElementInViewport_at s k = 10
          \<and> \<not> elStartPos s (children s ! k) < viewportBottom s
          \<and> \<not> elStartPos s (children s ! k) < viewportExtendedBottom s
        \<longrightarrow> (k = 13 \<longrightarrow> active (children (refresh s) ! k))
            \<and> (k = 14 \<longrightarrow> \<not> active (children (refresh s) ! k)))"
proof -
  from refresh_reached [OF assms(2,3)] assms(1,4,5)
  have rule: "active (children (refresh s) ! k) =
       (elStartPos s (children s ! k) < viewportExtendedBottom s
        \<or> (case prerenderItemsCount s of
              None \<Rightarrow> False
            | Some c \<Rightarrow> int k \<le> int (if elStartPos s (children s ! k) < viewportBottom s then k
                                      else lastVisibleElementInViewport_at s k) + c))"
    by (simp add: refresh_iteratee_def Let_def)
  then show ?thesis by auto
qed

lemma ex4w_refresh:
  "children (refresh (vertical_list False 0 (Some 3) (target 0 400 6000)
      [row 0 False, row 10 False, row 20 False, row 30 False, row 40 False, row 50 False,
       row 60 False, row 70 False, row 80 False, row 90 False, row 100 False,
       row 5000 False, row 5000 False, row 5000 False, row 5000 False])) =
    [row 0 True, row 10 True, row 20 True, row 30 True, row 40 True, row 50 True,
       row 60 True, row 70 True, row 80 True, row 90 True, row 100 True,
       row 5000 True, row 5000 True, row 5000 True, row 5000 False]"
  by (simp add: refresh_example_unfold  refresh_iteratee_row
        cong: prod.case_cong_weak)

lemma ex4w_lastVisible:
  "lastVisibleElementInViewport_at (vertical_list False 0 (Some 3) (target 0 400 6000)
      [row 0 False, row 10 False, row 20 False, row 30 False, row 40 False, row 50 False,
       row 60 False, row 70 False, row 80 False, row 90 False, row 100 False,
       row 5000 False, row 5000 False, row 5000 False, row 5000 False]) 13 = 10"
  "lastVisibleElementInViewport_at (vertical_list False 0 (Some 3) (target 0 400 6000)
      [row 0 False, row 10 False, row 20 False, row 30 False, row 40 False, row 50 False,
       row 60 False, row 70 False, row 80 False, row 90 False, row 100 False,
       row 5000 False, row 5000 False, row 5000 False, row 5000 False]) 14 = 10"
  by (simp_all add: lastVisible_example_unfold  refresh_iteratee_row
        cong: prod.case_cong_weak)

text \<open>
  Fifteen children: eleven in the viewport, four at offset 5000. The loop reaches index
  13 and index 14 with the variable at 10.
\<close>

theorem continuous_item_test_witness:
  "\<not> nonContinuous (vertical_list False 0 (Some 3) (target 0 400 6000)
      [row 0 False, row 10 False, row 20 False, row 30 False, row 40 False, row 50 False,
       row 60 False, row 70 False, row 80 False, row 90 False, row 100 False,
       row 5000 False, row 5000 False, row 5000 False, row 5000 False])
   \<and> list_all active (take 14 (children (refresh (vertical_list False 0 (Some 3)
      (target 0 400 6000)
      [row 0 False, row 10 False, row 20 False, row 30 False, row 40 False, row 50 False,
       row 60 False, row 70 False, row 80 False, row 90 False, row 100 False,
       row 5000 False, row 5000 False, row 5000 False, row 5000 False]))))
   \<and> lastVisibleElementInViewport_at (vertical_list False 0 (Some 3) (target 0 400 6000)
      [row 0 False, row 10 False, row 20 False, row 30 False, row 40 False, row 50 False,
       row 60 False, row 70 False, row 80 False, row 90 False, row 100 False,
       row 5000 False, row 5000 False, row 5000 False, row 5000 False]) 13 = 10
   \<and> lastVisibleElementInViewport_at (vertical_list False 0 (Some 3) (target 0 400 6000)
      [row 0 False, row 10 False, row 20 False, row 30 False, row 40 False, row 50 False,
       row 60 False, row 70 False, row 80 False, row 90 False, row 100 False,
       row 5000 False, row 5000 False, row 5000 False, row 5000 False]) 14 = 10
   \<and> \<not> (5000::real) < viewportExtendedBottom (vertical_list False 0 (Some 3)
      (target 0 400 6000)
      [row 0 False, row 10 False, row 20 False, row 30 False, row 40 False, row 50 False,
       row 60 False, row 70 False, row 80 False, row 90 False, row 100 False,
       row 5000 False, row 5000 False, row 5000 False, row 5000 False])
   \<and> active (children (refresh (vertical_list False 0 (Some 3) (target 0 400 6000)
      [row 0 False, row 10 False, row 20 False, row 30 False, row 40 False, row 50 False,
       row 60 False, row 70 False, row 80 False, row 90 False, row 100 False,
       row 5000 False, row 5000 False, row 5000 False, row 5000 False])) ! 13)
   \<and> \<not> active (children (refresh (vertical_list False 0 (Some 3) (target 0 400 6000)
      [row 0 False, row 10 False, row 20 False, row 30 False, row 40 False, row 50 False,
       row 60 False, row 70 False, row 80 False, row 90 False, row 100 False,
       row 5000 False, row 5000 False, row 5000 False, row 5000 False])) ! 14)"
  using continuous_item_test [of "vertical_list False 0 (Some 3) (target 0 400 6000)
      [row 0 False, row 10 False, row 20 False, row 30 False, row 40 False, row 50 False,
       row 60 False, row 70 False, row 80 False, row 90 False, row 100 False,
       row 5000 False, row 5000 False, row 5000 False, row 5000 False]" 13]
    continuous_item_test [of "vertical_list False 0 (Some 3) (target 0 400 6000)
      [row 0 False, row 10 False, row 20 False, row 30 False, row 40 False, row 50 False,
       row 60 False, row 70 False, row 80 False, row 90 False, row 100 False,
       row 5000 False, row 5000 False, row 5000 False, row 5000 False]" 14]
  by (simp add: ex4w_refresh ex4w_lastVisible vertical_list_simps row_simps)

text \<open>
  The claim as it was stated fails for a child that the loop does not reach: the child at
  index 5 is inside the window, but the loop was left at index 4.
\<close>

theorem continuous_item_test_counterexample:
  "\<not> nonContinuous (vertical_list False 0 (Some 3) (target 0 400 6000)
      [row 0 False, row 5000 False, row 5000 False, row 5000 False, row 5000 False,
       row 100 False])
   \<and> initialItemsCount (vertical_list False 0 (Some 3) (target 0 400 6000)
      [row 0 False, row 5000 False, row 5000 False, row 5000 False, row 5000 False,
       row 100 False]) \<le> 5
   \<and> \<not> active (children (vertical_list False 0 (Some 3) (target 0 400 6000)
      [row 0 False, row 5000 False, row 5000 False, row 5000 False, row 5000 False,
       row 100 False]) ! 5)
   \<and> elStartPos (vertical_list False 0 (Some 3) (target 0 400 6000)
      [row 0 False, row 5000 False, row 5000 False, row 5000 False, row 5000 False,
       row 100 False])
        (children (vertical_list False 0 (Some 3) (target 0 400 6000)
      [row 0 False, row 5000 False, row 5000 False, row 5000 False, row 5000 False,
       row 100 False]) ! 5)
       < viewportExtendedBottom (vertical_list False 0 (Some 3) (target 0 400 6000)
      [row 0 False, row 5000 False, row 5000 False, row 5000 False, row 5000 False,
       row 100 False])
   \<and> \<not> active (children (refresh (vertical_list False 0 (Some 3) (target 0 400 6000)
      [row 0 False, row 5000 False, row 5000 False, row 5000 False, row 5000 False,
       row 100 False])) ! 5)"
  by (simp add: vertical_list_simps row_simps refresh_example_unfold
        refresh_iteratee_row cong: prod.case_cong_weak)

subsection \<open>Active children and the last visible index\<close>

text \<open>
  Claim C5 does not hold of the code. The iteratee returns for an active child before it
  assigns \<^verbatim>\<open>lastVisibleElementInViewport\<close>. Three active children in the viewport and an
  inactive one below the window, with \<^verbatim>\<open>prerenderItemsCount\<close> 1: the variable is still 0
  when the loop arrives at index 3 and when it ends, although the child at index 2 is
  above \<^verbatim>\<open>viewportBottom\<close>, and the child at index 3 is not activated.
\<close>

theorem active_items_skip_lastVisible:
  "active (children (vertical_list False 0 (Some 1) (target 0 400 6000)
      [row 0 True, row 100 True, row 200 True, row 5000 False]) ! 2)
   \<and> elStartPos (vertical_list False 0 (Some 1) (target 0 400 6000)
      [row 0 True, row 100 True, row 200 True, row 5000 False])
        (children (vertical_list False 0 (Some 1) (target 0 400 6000)
      [row 0 True, row 100 True, row 200 True, row 5000 False]) ! 2)
       < viewportBottom (vertical_list False 0 (Some 1) (target 0 400 6000)
      [row 0 True, row 100 True, row 200 True, row 5000 False])
   \<and> lastVisibleElementInViewport_at (vertical_list False 0 (Some 1) (target 0 400 6000)
      [row 0 True, row 100 True, row 200 True, row 5000 False]) 3 = 0
   \<and> refresh_scan (vertical_list False 0 (Some 1) (target 0 400 6000)
      [row 0 True, row 100 True, row 200 True, row 5000 False]) =
      (0, [row 0 True, row 100 True, row 200 True, row 5000 False])
   \<and> \<not> active (children (refresh (vertical_list False 0 (Some 1) (target 0 400 6000)
      [row 0 True, row 100 True, row 200 True, row 5000 False])) ! 3)"
  by (simp add: vertical_list_simps row_simps refresh_example_unfold lastVisible_example_unfold
        refresh_scan_def  refresh_iteratee_row cong: prod.case_cong_weak)

subsection \<open>A viewport of length zero\<close>

lemma zero_viewport_window:
  assumes "findViewportLength s = 0"
  shows "viewportBottom s = findScorllLength s" "viewportTop s = findScorllLength s"
    "viewportExtendedBottom s = findScorllLength s" "viewportExtendedTop s = findScorllLength s"
  using assms
  by (simp_all add: viewportBottom_def viewportTop_def viewportExtendedBottom_def
        viewportExtendedTop_def)

lemma continuous_floor_only:
  assumes "\<not> nonContinuous s" and "prerenderItemsCount s = None"
  shows "\<forall>e\<in>set xs. \<not> elStartPos s e < viewportExtendedBottom s \<Longrightarrow>
    snd (forEach (refresh_iteratee s) lv i xs) =
    map (\<lambda>(j, e). if initialItemsCount s \<noteq> 0 \<and> int j < initialItemsCount s
                   then e\<lparr>active := True\<rparr> else e) (enumerate i xs)"
proof (induction xs arbitrary: lv i)
  case Nil
  show ?case by simp
next
  case (Cons x xs)
  then have x: "\<not> elStartPos s x < viewportExtendedBottom s"
    and xs: "\<forall>e\<in>set xs. \<not> elStartPos s e < viewportExtendedBottom s" by simp_all
  show ?case
  proof (cases "active x \<or> (initialItemsCount s \<noteq> 0 \<and> int i < initialItemsCount s)")
    case True
    then have "refresh_iteratee s lv x i = (lv, x\<lparr>active := True\<rparr>, True)"
      by (auto simp: refresh_iteratee_def)
    with True Cons.IH [OF xs, of lv "Suc i"] show ?thesis
      by (simp only: snd_forEach_Cons) auto
  next
    case False
    with assms x have "\<exists>l. refresh_iteratee s lv x i = (l, x, False)"
      by (auto simp: refresh_iteratee_def Let_def)
    moreover from False
    have "\<not> (initialItemsCount s \<noteq> 0 \<and> int (Suc i) < initialItemsCount s)" by auto
    note map_floor_past [OF this, of xs]
    ultimately show ?thesis using False
      by (simp only: snd_forEach_Cons) auto
  qed
qed

text \<open>
  Claim C9, as amended. With a viewport of length 0, \<^verbatim>\<open>_hasScroll\<close> after \<^verbatim>\<open>refresh\<close> is
  true exactly when the content length is positive, and the four bounds of the window are
  the scroll length. In non-continuous mode the only children that \<^verbatim>\<open>refresh\<close> changes are
  then those with an index below \<^verbatim>\<open>initialItemsCount\<close>; in continuous mode the same holds
  when \<^verbatim>\<open>prerenderItemsCount\<close> is undefined and no child starts before the scroll length.
\<close>

theorem zero_viewport:
  assumes "findViewportLength s = 0"
  shows "u_hasScroll (refresh s) = (findContentLength s > 0)
    \<and> viewportBottom s = findScorllLength s \<and> viewportTop s = findScorllLength s
    \<and> viewportExtendedBottom s = findScorllLength s
    \<and> viewportExtendedTop s = findScorllLength s
    \<and> (nonContinuous s
        \<or> (prerenderItemsCount s = None
           \<and> (\<forall>e\<in>set (children s). findScorllLength s \<le> elStartPos s e))
       \<longrightarrow> children (refresh s) =
            map (\<lambda>(j, e). if initialItemsCount s \<noteq> 0 \<and> int j < initialItemsCount s
                           then e\<lparr>active := True\<rparr> else e)
              (enumerate 0 (children s)))"
proof -
  note w = zero_viewport_window [OF assms]
  have flag: "u_hasScroll (refresh s) = (findContentLength s > 0)"
    using assms by (simp add: refresh_eq)
  have floor_only: "children (refresh s) =
            map (\<lambda>(j, e). if initialItemsCount s \<noteq> 0 \<and> int j < initialItemsCount s
                           then e\<lparr>active := True\<rparr> else e)
              (enumerate 0 (children s))"
    if h: "nonContinuous s
        \<or> (prerenderItemsCount s = None
           \<and> (\<forall>e\<in>set (children s). findScorllLength s \<le> elStartPos s e))"
  proof (cases "nonContinuous s")
    case True
    show ?thesis
      by (auto simp: children_refresh nonContinuous_scan_map [OF True] w)
  next
    case False
    with h have pc: "prerenderItemsCount s = None"
      and "\<forall>e\<in>set (children s). \<not> elStartPos s e < viewportExtendedBottom s"
      by (auto simp: w)
    from continuous_floor_only [OF False pc this(2)] show ?thesis
      by (simp add: children_refresh)
  qed
  from flag w floor_only show ?thesis by blast
qed

text \<open>
  The claim as it was stated fails at content length 1000, scroll length 100 and one child
  at offset 50 in continuous mode: \<^verbatim>\<open>_hasScroll\<close> is true and the child is activated
  without being an initial item.
\<close>

theorem zero_viewport_counterexample:
  "findViewportLength (vertical_list False 0 None (target 100 0 1000) [row 50 False]) = 0
   \<and> u_hasScroll (refresh (vertical_list False 0 None (target 100 0 1000) [row 50 False]))
   \<and> \<not> int 0 < initialItemsCount (vertical_list False 0 None (target 100 0 1000)
        [row 50 False])
   \<and> \<not> active (children (vertical_list False 0 None (target 100 0 1000) [row 50 False]) ! 0)
   \<and> active (children (refresh (vertical_list False 0 None (target 100 0 1000)
        [row 50 False])) ! 0)"
  by (simp add: vertical_list_simps row_simps refresh_example_unfold refresh_iteratee_row
        refresh_eq cong: prod.case_cong_weak)

text \<open>
  A non-continuous list scrolled to 100, and a continuous list at scroll length 0, both
  with a viewport of length 0.
\<close>

theorem zero_viewport_witness:
  "findViewportLength (vertical_list True 2 None (target 100 0 1000)
      [row 0 False, row 50 False, row 60 False, row 200 False]) = 0
   \<and> nonContinuous (vertical_list True 2 None (target 100 0 1000)
      [row 0 False, row 50 False, row 60 False, row 200 False])
   \<and> u_hasScroll (refresh (vertical_list True 2 None (target 100 0 1000)
      [row 0 False, row 50 False, row 60 False, row 200 False]))
   \<and> children (refresh (vertical_list True 2 None (target 100 0 1000)
      [row 0 False, row 50 False, row 60 False, row 200 False])) =
     [row 0 True, row 50 True, row 60 False, row 200 False]
   \<and> findViewportLength (vertical_list False 1 None (target 0 0 1000)
      [row 0 False, row 50 False, row 60 False]) = 0
   \<and> prerenderItemsCount (vertical_list False 1 None (target 0 0 1000)
      [row 0 False, row 50 False, row 60 False]) = None
   \<and> list_all (\<lambda>e. findScorllLength (vertical_list False 1 None (target 0 0 1000)
      [row 0 False, row 50 False, row 60 False]) \<le> elStartPos (vertical_list False 1 None
      (target 0 0 1000) [row 0 False, row 50 False, row 60 False]) e)
      (children (vertical_list False 1 None (target 0 0 1000)
      [row 0 False, row 50 False, row 60 False]))
   \<and> children (refresh (vertical_list False 1 None (target 0 0 1000)
      [row 0 False, row 50 False, row 60 False])) =
     [row 0 True, row 50 False, row 60 False]"
  using zero_viewport [of "vertical_list True 2 None (target 100 0 1000)
      [row 0 False, row 50 False, row 60 False, row 200 False]"]
    zero_viewport [of "vertical_list False 1 None (target 0 0 1000)
      [row 0 False, row 50 False, row 60 False]"]
  by (simp add: vertical_list_simps row_simps enumerate_eq_zip upt_rec)

end
